theory Spec2Isabelle
  imports Complex_Main
begin

section \<open>PSA import: data model\<close>

text \<open>
  A shallow embedding of \<^verbatim>\<open>import_psa\<close> (psa/importer.py). Floating-point numbers are
  read as real numbers, byte strings as their decoded text. The three-dimensional numpy
  arrays of the importer (the sequence data matrix and the keyframe write matrix, both
  indexed \<^verbatim>\<open>[frame, bone, channel]\<close>) are nested lists; the write matrix, an int8 array
  that only ever holds 1 and 0 and is only ever tested for truth, is a matrix of booleans.
\<close>

datatype vector = Vector (vx: real) (vy: real) (vz: real)

datatype quaternion = Quaternion (qw: real) (qx: real) (qy: real) (qz: real)

type_synonym 'a ndarray = "'a list list list"

text \<open>The operations of the host's mathutils library that the importer calls and that
  are not exact on the components: \<^verbatim>\<open>Quaternion.rotate(other)\<close> and
  \<^verbatim>\<open>Vector.rotate(other)\<close>, both in place. They are parameters of the model.\<close>

record mathutils =
  q_rotate :: "quaternion \<Rightarrow> quaternion \<Rightarrow> quaternion"
  v_rotate :: "vector \<Rightarrow> quaternion \<Rightarrow> vector"

definition conjugated :: "quaternion \<Rightarrow> quaternion" where
  "conjugated q = Quaternion (qw q) (- qx q) (- qy q) (- qz q)"

definition vsub :: "vector \<Rightarrow> vector \<Rightarrow> vector" where
  "vsub a b = Vector (vx a - vx b) (vy a - vy b) (vz a - vz b)"

text \<open>The armature of the host: a bone knows its parent (an object reference, here the
  parent itself), its rest matrix \<^verbatim>\<open>matrix_local\<close> (its translation and the quaternion
  \<^verbatim>\<open>to_quaternion()\<close> gives) and the custom properties \<^verbatim>\<open>orig_quat\<close>,
  \<^verbatim>\<open>orig_loc\<close>, \<^verbatim>\<open>post_quat\<close>, stored together or not at all.\<close>

datatype bone = Bone
  (bone_name: string)
  (bone_parent: "bone option")
  (matrix_local_translation: vector)
  (matrix_local_quaternion: quaternion)
  (bone_aux: "(quaternion \<times> vector \<times> quaternion) option")

record psa_bone =
  psa_bone_name :: string
  parent_index :: int

record import_bone =
  psa_bone :: psa_bone
  parent :: "nat option"
  armature_bone :: bone
  pose_bone :: string
  orig_loc :: vector
  orig_quat :: quaternion
  post_quat :: quaternion
  fcurves :: "nat list"

section \<open>The keyframe reducer (importer.py, lines 155 and 169-183)\<close>

definition in_shape :: "'a ndarray \<Rightarrow> nat \<Rightarrow> nat \<Rightarrow> nat \<Rightarrow> bool" where
  "in_shape a i j k = (i < length a \<and> j < length (a ! i) \<and> k < length (a ! i ! j))"

definition has_shape :: "'a ndarray \<Rightarrow> nat \<Rightarrow> nat \<Rightarrow> nat \<Rightarrow> bool" where
  "has_shape a n_frames n_bones n_channels =
     (length a = n_frames \<and>
      list_all (\<lambda>row. length row = n_bones \<and> list_all (\<lambda>key. length key = n_channels) row) a)"

text \<open>\<^verbatim>\<open>a[i, j, k] = v\<close>; the importer only assigns inside the shape of the array.\<close>

definition set3 :: "'a ndarray \<Rightarrow> nat \<Rightarrow> nat \<Rightarrow> nat \<Rightarrow> 'a \<Rightarrow> 'a ndarray" where
  "set3 a i j k v = a[i := (a ! i)[j := (a ! i ! j)[k := v]]]"

text \<open>\<^verbatim>\<open>np.ones(sequence_data_matrix.shape, dtype=np.int8)\<close>\<close>

definition ones_like :: "'a ndarray \<Rightarrow> bool ndarray" where
  "ones_like a = map (map (map (\<lambda>_. True))) a"

text \<open>\<^verbatim>\<open>a[:, j, k]\<close>\<close>

definition column :: "'a ndarray \<Rightarrow> nat \<Rightarrow> nat \<Rightarrow> 'a list" where
  "column a j k = map (\<lambda>row. row ! j ! k) a"

text \<open>The loop over the frames of one f-curve (lines 178-183). Its state is
  \<^verbatim>\<open>last_written_datum\<close> and the write matrix.\<close>

fun clean_frames ::
  "real \<Rightarrow> nat \<Rightarrow> nat \<Rightarrow> (nat \<times> real) list \<Rightarrow> real \<Rightarrow> bool ndarray \<Rightarrow> bool ndarray" where
  "clean_frames thr bone_index fcurve_index [] last_written_datum w = w"
| "clean_frames thr bone_index fcurve_index ((frame_index, datum) # rest) last_written_datum w =
     (if frame_index > 0 \<and> \<bar>datum - last_written_datum\<bar> < thr
      then clean_frames thr bone_index fcurve_index rest last_written_datum
             (set3 w frame_index bone_index fcurve_index False)
      else clean_frames thr bone_index fcurve_index rest datum w)"

text \<open>The loop over the f-curves of one bone (lines 174-177).\<close>

definition clean_bone ::
  "real \<Rightarrow> real ndarray \<Rightarrow> nat \<Rightarrow> nat \<Rightarrow> bool ndarray \<Rightarrow> bool ndarray" where
  "clean_bone thr m bone_index n_fcurves w =
     fold (\<lambda>fcurve_index w.
             clean_frames thr bone_index fcurve_index
               (enumerate 0 (column m bone_index fcurve_index)) 0 w)
          [0..<n_fcurves] w"

text \<open>The loop over the import bones (lines 171-174); the source fixes
  \<^verbatim>\<open>threshold = 0.001\<close> at the call.\<close>

definition clean_keys ::
  "real \<Rightarrow> import_bone option list \<Rightarrow> real ndarray \<Rightarrow> bool ndarray \<Rightarrow> bool ndarray" where
  "clean_keys thr import_bones m w =
     fold (\<lambda>(bone_index, import_bone) w.
             case import_bone of
               None \<Rightarrow> w
             | Some ib \<Rightarrow> clean_bone thr m bone_index (length (fcurves ib)) w)
          (enumerate 0 import_bones) w"

definition threshold :: real where
  "threshold = 1 / 1000"

text \<open>The write matrix of one sequence (lines 155 and 169).\<close>

definition keyframe_write_matrix ::
  "bool \<Rightarrow> import_bone option list \<Rightarrow> real ndarray \<Rightarrow> bool ndarray" where
  "keyframe_write_matrix should_clean_keys import_bones m =
     (if should_clean_keys then clean_keys threshold import_bones m (ones_like m)
      else ones_like m)"

subsection \<open>What one f-curve's pass computes\<close>

text \<open>The marks the pass leaves on a column of values, started at frame \<open>k\<close> with a
  given last written datum.\<close>

fun written_from :: "real \<Rightarrow> nat \<Rightarrow> real \<Rightarrow> real list \<Rightarrow> bool list" where
  "written_from t k lw [] = []"
| "written_from t k lw (d # ds) =
     (if k > 0 \<and> \<bar>d - lw\<bar> < t then False # written_from t (Suc k) lw ds
      else True # written_from t (Suc k) d ds)"

definition written :: "real \<Rightarrow> real list \<Rightarrow> bool list" where
  "written t ds = written_from t 0 0 ds"


text \<open>The frame whose value a frame \<open>i\<close> is compared with, read off the marks: the
  last frame before \<open>i\<close> that is marked written.\<close>

fun last_written :: "bool list \<Rightarrow> nat \<Rightarrow> nat" where
  "last_written marks 0 = 0"
| "last_written marks (Suc i) = (if marks ! i then i else last_written marks i)"

text \<open>The value of \<^verbatim>\<open>last_written_datum\<close> when the pass, started with the value \<open>l\<close>,
  reaches position \<open>i\<close> of a column.\<close>

fun last_value :: "real \<Rightarrow> bool list \<Rightarrow> real list \<Rightarrow> nat \<Rightarrow> real" where
  "last_value l marks ds 0 = l"
| "last_value l marks ds (Suc i) = (if marks ! i then ds ! i else last_value l marks ds i)"

text \<open>The number of entries of a write matrix that are marked written.\<close>

definition count_written :: "bool ndarray \<Rightarrow> nat" where
  "count_written w = (\<Sum>row\<leftarrow>w. \<Sum>key\<leftarrow>row. length (filter (\<lambda>x. x) key))"

section \<open>Example inputs\<close>

definition pelvis_import_bone :: import_bone where
  "pelvis_import_bone =
     \<lparr>psa_bone = \<lparr>psa_bone_name = ''pelvis'', parent_index = 0\<rparr>,
      parent = None,
      armature_bone = Bone ''pelvis'' None (Vector 0 0 0) (Quaternion 1 0 0 0) None,
      pose_bone = ''pelvis'',
      orig_loc = Vector 0 0 0,
      orig_quat = Quaternion 1 0 0 0,
      post_quat = Quaternion 1 0 0 0,
      fcurves = [0, 1, 2, 3, 4, 5, 6]\<rparr>"

text \<open>Four frames of one bone; only the first channel moves: 0, 3, 5, 1.\<close>

definition four_frames :: "real ndarray" where
  "four_frames =
     [[[0, 0, 0, 0, 0, 0, 0]],
      [[3, 0, 0, 0, 0, 0, 0]],
      [[5, 0, 0, 0, 0, 0, 0]],
      [[1, 0, 0, 0, 0, 0, 0]]]"

text \<open>Three frames of one bone whose first channel drifts: 0, 0.0005, 0.0012. Frame 2 is
  closer than 0.001 to frame 1 but not to frame 0.\<close>

definition drift_frames :: "real ndarray" where
  "drift_frames =
     [[[0, 0, 0, 0, 0, 0, 0]],
      [[1 / 2000, 0, 0, 0, 0, 0, 0]],
      [[3 / 2500, 0, 0, 0, 0, 0, 0]]]"

section \<open>The reducer, entry by entry\<close>

lemma length_written_from [simp]: "length (written_from t k lw ds) = length ds"
  by (induction ds arbitrary: k lw) auto

lemma in_shape_set3 [simp]: "in_shape (set3 a i j k v) f b c = in_shape a f b c"
  by (cases "f = i"; cases "b = j") (auto simp: in_shape_def set3_def)

lemma set3_nth:
  "in_shape a f b c \<Longrightarrow>
   set3 a i j k v ! f ! b ! c = (if f = i \<and> b = j \<and> c = k then v else a ! f ! b ! c)"
  by (cases "f = i"; cases "b = j"; cases "c = k") (auto simp: in_shape_def set3_def)

lemma length_set3 [simp]: "length (set3 a i j k v) = length a"
  by (simp add: set3_def)

lemma in_shape_clean_frames [simp]:
  "in_shape (clean_frames t b c es lw w) f b' c' = in_shape w f b' c'"
  by (induction es arbitrary: lw w) (auto split: if_splits)

lemma clean_frames_nth:
  "in_shape w f b' c' \<Longrightarrow>
   clean_frames t b c (enumerate k ds) lw w ! f ! b' ! c' =
     (w ! f ! b' ! c' \<and>
      \<not> (b' = b \<and> c' = c \<and> k \<le> f \<and> f < k + length ds \<and> \<not> written_from t k lw ds ! (f - k)))"
proof (induction ds arbitrary: k lw w)
  case Nil
  then show ?case by simp
next
  case (Cons d ds)
  have shift: "f - k = Suc (f - Suc k)" if "k < f"
    using that by simp
  show ?case
  proof (cases "k > 0 \<and> \<bar>d - lw\<bar> < t")
    case True
    have "in_shape (set3 w k b c False) f b' c'"
      using Cons.prems by simp
    from Cons.IH [OF this, of "Suc k" lw] True Cons.prems show ?thesis
      by (cases "k < f") (auto simp: set3_nth shift)
  next
    case False
    from Cons.IH [OF Cons.prems, of "Suc k" d] False show ?thesis
      by (cases "k < f") (auto simp: shift)
  qed
qed

lemma length_written [simp]: "length (written t ds) = length ds"
  by (simp add: written_def)

lemma written_Cons: "written t (d # ds) = True # written_from t 1 d ds"
  by (simp add: written_def)

lemma written_0: "ds \<noteq> [] \<Longrightarrow> written t ds ! 0"
  by (cases ds) (simp_all add: written_Cons)

lemma clean_bone_Suc:
  "clean_bone t m b (Suc n) w =
     clean_frames t b n (enumerate 0 (column m b n)) 0 (clean_bone t m b n w)"
  by (simp add: clean_bone_def)

lemma in_shape_clean_bone [simp]:
  "in_shape (clean_bone t m b n w) f b' c' = in_shape w f b' c'"
  by (induction n) (simp_all add: clean_bone_Suc, simp add: clean_bone_def)

lemma length_column [simp]: "length (column a j k) = length a"
  by (simp add: column_def)

lemma clean_bone_nth:
  "in_shape w f b' c' \<Longrightarrow>
   clean_bone t m b n w ! f ! b' ! c' =
     (w ! f ! b' ! c' \<and>
      \<not> (b' = b \<and> c' < n \<and> f < length m \<and> \<not> written t (column m b c') ! f))"
proof (induction n)
  case 0
  then show ?case by (simp add: clean_bone_def)
next
  case (Suc n)
  have "in_shape (clean_bone t m b n w) f b' c'"
    using Suc.prems by simp
  from clean_frames_nth [OF this, of t b n 0 "column m b n" 0] Suc show ?case
    by (auto simp: clean_bone_Suc written_def less_Suc_eq)
qed

lemma clean_keys_snoc:
  "clean_keys t (ibs @ [x]) m w =
     (case x of
        None \<Rightarrow> clean_keys t ibs m w
      | Some ib \<Rightarrow> clean_bone t m (length ibs) (length (fcurves ib)) (clean_keys t ibs m w))"
  by (simp add: clean_keys_def enumerate_append_eq split: option.splits)

lemma in_shape_clean_keys [simp]:
  "in_shape (clean_keys t ibs m w) f b c = in_shape w f b c"
proof (induction ibs rule: rev_induct)
  case Nil
  show ?case by (simp add: clean_keys_def)
next
  case (snoc x ibs)
  then show ?case by (simp add: clean_keys_snoc split: option.splits)
qed

text \<open>The write matrix after the reducer, entry by entry: an entry is cleared exactly
  when its bone is an import bone, its channel one of the bone's f-curves, and the pass
  over its column leaves the frame unmarked.\<close>

lemma clean_keys_nth:
  "in_shape w f b c \<Longrightarrow>
   clean_keys t ibs m w ! f ! b ! c =
     (w ! f ! b ! c \<and>
      \<not> (b < length ibs \<and>
         (case ibs ! b of None \<Rightarrow> False | Some ib \<Rightarrow> c < length (fcurves ib)) \<and>
         f < length m \<and> \<not> written t (column m b c) ! f))"
proof (induction ibs rule: rev_induct)
  case Nil
  show ?case by (simp add: clean_keys_def)
next
  case (snoc x ibs)
  show ?case
  proof (cases x)
    case None
    with snoc show ?thesis
      by (auto simp: clean_keys_snoc nth_append less_Suc_eq)
  next
    case (Some ib)
    have "in_shape (clean_keys t ibs m w) f b c"
      using snoc.prems by simp
    from clean_bone_nth [OF this, of t m "length ibs" "length (fcurves ib)"] snoc Some
    show ?thesis
      by (auto simp: clean_keys_snoc nth_append less_Suc_eq)
  qed
qed

lemma in_shape_ones_like [simp]: "in_shape (ones_like a) f b c = in_shape a f b c"
  by (auto simp: in_shape_def ones_like_def)

lemma ones_like_nth: "in_shape a f b c \<Longrightarrow> ones_like a ! f ! b ! c"
  by (simp add: in_shape_def ones_like_def)

lemma length_ones_like [simp]: "length (ones_like a) = length a"
  by (simp add: ones_like_def)

lemma has_shape_in_shape:
  "has_shape a nf nb nc \<Longrightarrow> f < nf \<Longrightarrow> b < nb \<Longrightarrow> c < nc \<Longrightarrow> in_shape a f b c"
  by (auto simp: has_shape_def in_shape_def list_all_length)


lemma last_value_Cons:
  "last_value l (m0 # marks) (d # ds) (Suc i) = last_value (if m0 then d else l) marks ds i"
  by (induction i) simp_all

lemma written_from_nth:
  "0 < k \<Longrightarrow> i < length ds \<Longrightarrow>
   written_from t k l ds ! i = (\<not> \<bar>ds ! i - last_value l (written_from t k l ds) ds i\<bar> < t)"
proof (induction ds arbitrary: k l i)
  case Nil
  then show ?case by simp
next
  case (Cons d ds)
  show ?case
  proof (cases i)
    case 0
    with Cons.prems show ?thesis by simp
  next
    case (Suc j)
    with Cons.prems have j: "j < length ds" by simp
    from Cons.IH [OF _ j, of "Suc k"] Suc show ?thesis
      by (simp add: last_value_Cons del: last_value.simps)
  qed
qed

lemma last_written_less: "0 < i \<Longrightarrow> last_written marks i < i"
  by (induction i) (auto simp: less_Suc_eq)

lemma nth_last_written_Cons:
  "(d # ds) ! last_written (True # marks) (Suc i) = last_value d marks ds i"
  by (induction i) simp_all

text \<open>One column: a later frame is unmarked exactly when it is closer than the threshold
  to the value of the last frame marked before it.\<close>

lemma written_nth:
  assumes "0 < i" and "i < length ds"
  shows "written t ds ! i = (\<not> \<bar>ds ! i - ds ! last_written (written t ds) i\<bar> < t)"
proof -
  from assms obtain d ds' j where ds: "ds = d # ds'" and i: "i = Suc j" and j: "j < length ds'"
    by (cases ds; cases i) auto
  have "written t ds ! i = written_from t 1 d ds' ! j"
    by (simp add: ds i written_Cons)
  also have "\<dots> = (\<not> \<bar>ds' ! j - last_value d (written_from t 1 d ds') ds' j\<bar> < t)"
    using j by (intro written_from_nth) simp_all
  also have "last_value d (written_from t 1 d ds') ds' j = ds ! last_written (written t ds) i"
    by (simp add: ds i written_Cons nth_last_written_Cons del: last_written.simps)
  finally show ?thesis
    by (simp add: ds i)
qed

lemma column_nth [simp]: "f < length a \<Longrightarrow> column a j k ! f = a ! f ! j ! k"
  by (simp add: column_def)

text \<open>The column of the cleaned write matrix of an import bone's f-curve is the marks of
  the pass over the data column.\<close>

lemma length_clean_frames [simp]: "length (clean_frames t b c es l w) = length w"
  by (induction es arbitrary: l w) auto

lemma length_clean_bone [simp]: "length (clean_bone t m b n w) = length w"
  by (induction n) (simp_all add: clean_bone_Suc, simp add: clean_bone_def)

lemma length_clean_keys [simp]: "length (clean_keys t ibs m w) = length w"
  by (induction ibs rule: rev_induct)
    (simp_all add: clean_keys_snoc split: option.splits, simp add: clean_keys_def)

lemma column_clean_keys:
  assumes "has_shape m nf nb nc" and "b < nb" and "c < nc"
    and "b < length ibs" and "ibs ! b = Some ib" and "c < length (fcurves ib)"
  shows "column (clean_keys t ibs m (ones_like m)) b c = written t (column m b c)"
proof (rule nth_equalityI)
  show "length (column (clean_keys t ibs m (ones_like m)) b c) = length (written t (column m b c))"
    by simp
next
  fix f assume "f < length (column (clean_keys t ibs m (ones_like m)) b c)"
  then have f: "f < length m" by simp
  with assms have "in_shape m f b c"
    by (auto intro: has_shape_in_shape simp: has_shape_def)
  with f assms show "column (clean_keys t ibs m (ones_like m)) b c ! f = written t (column m b c) ! f"
    by (simp add: clean_keys_nth ones_like_nth)
qed

subsection \<open>Shapes and counts\<close>

lemma list_update_same: "(i < length xs \<longrightarrow> xs ! i = y) \<Longrightarrow> xs[i := y] = xs"
  by (cases "i < length xs") (simp_all add: list_update_same_conv list_update_beyond)

lemma shape_set3: "map (map length) (set3 a i j k v) = map (map length) a"
  by (simp add: set3_def map_update list_update_same)

lemma has_shape_alt:
  "has_shape a nf nb nc =
     (length a = nf \<and> list_all (\<lambda>r. length r = nb \<and> list_all (\<lambda>n. n = nc) r) (map (map length) a))"
  by (simp add: has_shape_def list.pred_map comp_def)

lemma shape_clean_frames: "map (map length) (clean_frames t b c es l w) = map (map length) w"
  by (induction es arbitrary: l w) (auto simp: shape_set3)

lemma shape_clean_bone: "map (map length) (clean_bone t m b n w) = map (map length) w"
  by (induction n) (simp_all add: clean_bone_Suc shape_clean_frames, simp add: clean_bone_def)

lemma shape_clean_keys: "map (map length) (clean_keys t ibs m w) = map (map length) w"
  by (induction ibs rule: rev_induct)
    (simp_all add: clean_keys_snoc shape_clean_bone split: option.splits, simp add: clean_keys_def)

lemma has_shape_clean_keys [simp]:
  "has_shape (clean_keys t ibs m w) nf nb nc = has_shape w nf nb nc"
  by (simp add: has_shape_alt shape_clean_keys)

lemma has_shape_ones_like [simp]: "has_shape (ones_like a) nf nb nc = has_shape a nf nb nc"
  by (simp add: has_shape_def ones_like_def list.pred_map comp_def)

lemma length_filter_sum: "length (filter (\<lambda>x. x) bs) = (\<Sum>c<length bs. of_bool (bs ! c))"
proof -
  have "{i. i < length bs \<and> bs ! i} = {..<length bs} \<inter> Collect ((!) bs)"
    by auto
  then show ?thesis
    by (simp add: length_filter_conv_card)
qed

lemma sum_list_map_nth: "(\<Sum>x\<leftarrow>xs. g x) = (\<Sum>i<length xs. g (xs ! i) :: nat)"
  by (induction xs rule: rev_induct) (simp_all add: nth_append)

lemma count_written_sum:
  assumes "has_shape w nf nb nc"
  shows "count_written w = (\<Sum>f<nf. \<Sum>b<nb. \<Sum>c<nc. of_bool (w ! f ! b ! c))"
  using assms
  by (simp add: count_written_def sum_list_map_nth length_filter_sum has_shape_def list_all_length)

lemma count_written_by_column:
  assumes "has_shape w nf nb nc"
  shows "count_written w = (\<Sum>b<nb. \<Sum>c<nc. \<Sum>f<nf. of_bool (w ! f ! b ! c))"
proof -
  have "count_written w = (\<Sum>f<nf. \<Sum>b<nb. \<Sum>c<nc. of_bool (w ! f ! b ! c))"
    using assms by (rule count_written_sum)
  also have "\<dots> = (\<Sum>b<nb. \<Sum>f<nf. \<Sum>c<nc. of_bool (w ! f ! b ! c))"
    by (rule sum.swap)
  also have "\<dots> = (\<Sum>b<nb. \<Sum>c<nc. \<Sum>f<nf. of_bool (w ! f ! b ! c))"
    by (intro sum.cong refl sum.swap)
  finally show ?thesis .
qed

lemma length_le_3:
  "length (ds :: 'a list) \<le> 3 \<Longrightarrow>
   ds = [] \<or> (\<exists>a. ds = [a]) \<or> (\<exists>a b. ds = [a, b]) \<or> (\<exists>a b c. ds = [a, b, c])"
  by (auto simp: le_Suc_eq length_Suc_conv numeral_3_eq_3)

text \<open>On a column of at most three frames a larger threshold marks no more frames.\<close>

lemma written_mono_3:
  assumes "t1 \<le> t2" and "length ds \<le> 3"
  shows "(\<Sum>f<length ds. of_bool (written t2 ds ! f) :: nat)
           \<le> (\<Sum>f<length ds. of_bool (written t1 ds ! f))"
  using length_le_3 [OF assms(2)] assms(1)
  by (auto simp: written_def lessThan_Suc)

section \<open>The claims of the specification\<close>

text \<open>
  C1. With keyframe cleaning enabled, for an import bone \<open>b\<close>, one of its seven channels
  \<open>c\<close> and a frame \<open>i > 0\<close>, the entry of the write matrix is cleared exactly when the
  value of the frame is closer than the threshold 0.001 to the value of the last frame
  before \<open>i\<close> that the matrix marks written for this bone and channel. The comparison is
  with the last written value, which moves only when a frame is marked.
\<close>

theorem cleaned_iff_close_to_last_written:
  assumes "has_shape m n_frames n_bones 7"
    and "b < n_bones" and "b < length import_bones" and "import_bones ! b = Some ib"
    and "length (fcurves ib) = 7" and "c < 7"
    and "0 < i" and "i < n_frames"
  shows "(\<not> keyframe_write_matrix True import_bones m ! i ! b ! c) =
         (\<bar>m ! i ! b ! c -
           m ! last_written (column (keyframe_write_matrix True import_bones m) b c) i ! b ! c\<bar>
            < 1 / 1000)"
proof -
  let ?w = "keyframe_write_matrix True import_bones m"
  let ?ds = "column m b c"
  have len: "length m = n_frames"
    using assms(1) by (simp add: has_shape_def)
  have col: "column ?w b c = written threshold ?ds"
    using assms by (simp add: keyframe_write_matrix_def column_clean_keys [where nc = 7])
  have "last_written (written threshold ?ds) i < i"
    using assms(7) by (rule last_written_less)
  then have lw: "last_written (written threshold ?ds) i < length m"
    using assms(8) len by simp
  have "?w ! i ! b ! c = column ?w b c ! i"
    using assms(8) len by (simp add: keyframe_write_matrix_def)
  also have "\<dots> = written threshold ?ds ! i"
    by (simp add: col)
  also have "\<dots> = (\<not> \<bar>?ds ! i - ?ds ! last_written (written threshold ?ds) i\<bar> < threshold)"
    using assms(7,8) len by (intro written_nth) simp_all
  finally show ?thesis
    using assms(8) len lw by (simp add: col threshold_def)
qed

theorem cleaned_iff_close_to_last_written_witness:
  "has_shape drift_frames 3 1 7 \<and> [Some pelvis_import_bone] ! 0 = Some pelvis_import_bone \<and>
   length (fcurves pelvis_import_bone) = 7 \<and>
   column (keyframe_write_matrix True [Some pelvis_import_bone] drift_frames) 0 0
     = [True, False, True] \<and>
   last_written (column (keyframe_write_matrix True [Some pelvis_import_bone] drift_frames) 0 0) 2 = 0 \<and>
   \<bar>drift_frames ! 2 ! 0 ! 0 - drift_frames ! 1 ! 0 ! 0\<bar> < 1 / 1000 \<and>
   keyframe_write_matrix True [Some pelvis_import_bone] drift_frames ! 2 ! 0 ! 0"
proof -
  have shape: "has_shape drift_frames 3 1 7"
    by (simp add: has_shape_def drift_frames_def)
  have fc: "length (fcurves pelvis_import_bone) = 7"
    by (simp add: pelvis_import_bone_def)
  have col: "column (keyframe_write_matrix True [Some pelvis_import_bone] drift_frames) 0 0
      = [True, False, True]"
    by (simp add: keyframe_write_matrix_def column_clean_keys [OF shape, where ib = pelvis_import_bone] fc
        written_def threshold_def) (simp add: column_def drift_frames_def)
  have lw: "last_written [True, False, True] 2 = 0"
    by (simp add: eval_nat_numeral)
  from cleaned_iff_close_to_last_written [OF shape, of 0 "[Some pelvis_import_bone]"
      pelvis_import_bone 0 2] fc
  have "(\<not> keyframe_write_matrix True [Some pelvis_import_bone] drift_frames ! 2 ! 0 ! 0) = False"
    by (simp add: col lw) (simp add: drift_frames_def)
  moreover have "\<bar>drift_frames ! 2 ! 0 ! 0 - drift_frames ! 1 ! 0 ! 0\<bar> < 1 / 1000"
    by (simp add: drift_frames_def)
  ultimately show ?thesis
    using shape fc col lw by simp
qed

text \<open>
  C2. Frame 0 of every bone and channel of the matrix is marked written: by the reducer
  run with any threshold on any list of import bones, and so in the write matrix of a
  sequence whether keys are cleaned or not, whatever the values.
\<close>

theorem frame_0_always_written:
  assumes "in_shape m 0 b c"
  shows "clean_keys t import_bones m (ones_like m) ! 0 ! b ! c \<and>
         keyframe_write_matrix should_clean_keys import_bones m ! 0 ! b ! c"
proof -
  from assms have "m \<noteq> []"
    by (auto simp: in_shape_def)
  then have "written t' (column m b c) ! 0" for t'
    by (intro written_0) (simp add: column_def)
  with assms show ?thesis
    by (simp add: keyframe_write_matrix_def clean_keys_nth ones_like_nth)
qed

theorem frame_0_always_written_witness:
  "in_shape four_frames 0 0 6 \<and>
   clean_keys 2 [Some pelvis_import_bone] four_frames (ones_like four_frames) ! 0 ! 0 ! 6 \<and>
   keyframe_write_matrix True [Some pelvis_import_bone] four_frames ! 0 ! 0 ! 6"
proof -
  have "in_shape four_frames 0 0 6"
    by (simp add: in_shape_def four_frames_def)
  with frame_0_always_written [of four_frames 0 6 2 "[Some pelvis_import_bone]" True]
  show ?thesis by simp
qed

text \<open>
  C8, as the specification states it: for a fixed data matrix a larger threshold never
  marks more entries written than a smaller one. The pass compares with the last
  \<^emph>\<open>written\<close> value, so a larger threshold can skip a frame and then meet later frames
  that are far from the older value it kept. On the values 0, 3, 5, 1 the threshold 2.5
  marks two frames of the channel, the threshold 4 marks three.
\<close>

theorem larger_threshold_more_keyframes_counterexample:
  "(5 / 2 :: real) \<le> 4 \<and>
   count_written (clean_keys (5 / 2) [Some pelvis_import_bone] four_frames (ones_like four_frames)) = 8 \<and>
   count_written (clean_keys 4 [Some pelvis_import_bone] four_frames (ones_like four_frames)) = 9"
  by (simp add: count_written_def clean_keys_def clean_bone_def pelvis_import_bone_def
      four_frames_def ones_like_def column_def set3_def upt_rec eval_nat_numeral)

text \<open>
  C8, amended. For a data matrix of at most three frames a larger threshold never marks
  more entries written than a smaller one; and for a matrix of any number of frames the
  reducer, at any threshold, never marks more entries than are marked without cleaning.
\<close>

theorem threshold_monotone_up_to_three_frames:
  assumes "has_shape m n_frames n_bones n_channels"
  shows "count_written (clean_keys t import_bones m (ones_like m)) \<le> count_written (ones_like m) \<and>
         (n_frames \<le> 3 \<and> t1 \<le> t2 \<longrightarrow>
            count_written (clean_keys t2 import_bones m (ones_like m))
              \<le> count_written (clean_keys t1 import_bones m (ones_like m)))"
proof (intro conjI impI)
  have len: "length m = n_frames"
    using assms by (simp add: has_shape_def)
  have entry: "clean_keys t' import_bones m (ones_like m) ! f ! b ! c =
      (\<not> (b < length import_bones \<and>
          (case import_bones ! b of None \<Rightarrow> False | Some ib \<Rightarrow> c < length (fcurves ib)) \<and>
          \<not> written t' (column m b c) ! f))"
    if "f < n_frames" "b < n_bones" "c < n_channels" for t' f b c
  proof -
    from assms that have "in_shape m f b c"
      by (rule has_shape_in_shape)
    with that(1) len show ?thesis
      by (simp add: clean_keys_nth ones_like_nth)
  qed
  have ones: "ones_like m ! f ! b ! c"
    if "f < n_frames" "b < n_bones" "c < n_channels" for f b c
    using has_shape_in_shape [OF assms that] by (rule ones_like_nth)
  show "count_written (clean_keys t import_bones m (ones_like m)) \<le> count_written (ones_like m)"
    using assms
    by (simp only: count_written_sum [where nf = n_frames and nb = n_bones and nc = n_channels]
        has_shape_clean_keys has_shape_ones_like)
      (intro sum_mono, simp add: ones)
next
  assume a: "n_frames \<le> 3 \<and> t1 \<le> t2"
  have len: "length m = n_frames"
    using assms by (simp add: has_shape_def)
  have entry: "clean_keys t' import_bones m (ones_like m) ! f ! b ! c =
      (\<not> (b < length import_bones \<and>
          (case import_bones ! b of None \<Rightarrow> False | Some ib \<Rightarrow> c < length (fcurves ib)) \<and>
          \<not> written t' (column m b c) ! f))"
    if "f < n_frames" "b < n_bones" "c < n_channels" for t' f b c
  proof -
    from assms that have "in_shape m f b c"
      by (rule has_shape_in_shape)
    with that(1) len show ?thesis
      by (simp add: clean_keys_nth ones_like_nth)
  qed
  have col: "(\<Sum>f<n_frames. of_bool (clean_keys t2 import_bones m (ones_like m) ! f ! b ! c) :: nat)
      \<le> (\<Sum>f<n_frames. of_bool (clean_keys t1 import_bones m (ones_like m) ! f ! b ! c))"
    if bc: "b < n_bones" "c < n_channels" for b c
  proof (cases "b < length import_bones \<and>
      (case import_bones ! b of None \<Rightarrow> False | Some ib \<Rightarrow> c < length (fcurves ib))")
    case True
    have "(\<Sum>f<n_frames. of_bool (clean_keys t' import_bones m (ones_like m) ! f ! b ! c) :: nat)
        = (\<Sum>f<length (column m b c). of_bool (written t' (column m b c) ! f))" for t'
      using True bc by (simp add: entry len)
    moreover have "length (column m b c) \<le> 3"
      using a len by simp
    ultimately show ?thesis
      using written_mono_3 [of t1 t2 "column m b c"] a by simp
  next
    case False
    have "clean_keys t' import_bones m (ones_like m) ! f ! b ! c" if "f < n_frames" for t' f
      using False entry [OF that bc, of t'] by blast
    then show ?thesis
      by simp
  qed
  show "count_written (clean_keys t2 import_bones m (ones_like m))
      \<le> count_written (clean_keys t1 import_bones m (ones_like m))"
    using assms
    by (simp only: count_written_by_column [where nf = n_frames and nb = n_bones and nc = n_channels]
        has_shape_clean_keys has_shape_ones_like)
      (rule sum_mono, rule sum_mono, rule col, simp_all)
qed

theorem threshold_monotone_up_to_three_frames_witness:
  "has_shape drift_frames 3 1 7 \<and> (3 :: nat) \<le> 3 \<and> (1 / 1000 :: real) \<le> 1 \<and>
   count_written (clean_keys 1 [Some pelvis_import_bone] drift_frames (ones_like drift_frames))
     \<le> count_written (clean_keys (1 / 1000) [Some pelvis_import_bone] drift_frames (ones_like drift_frames)) \<and>
   count_written (clean_keys 1 [Some pelvis_import_bone] drift_frames (ones_like drift_frames))
     \<le> count_written (ones_like drift_frames)"
proof -
  have shape: "has_shape drift_frames 3 1 7"
    by (simp add: has_shape_def drift_frames_def)
  from threshold_monotone_up_to_three_frames [OF shape, of 1 "[Some pelvis_import_bone]" "1 / 1000" 1]
  show ?thesis
    using shape by simp
qed

end
